theory Spec2Isabelle
  imports Complex_Main "HOL-Library.Word"
begin

section \<open>The HumanS smart bridge (v5.1): data model\<close>

text \<open>
  The bridge is an Arduino sketch whose state is a set of global variables, mutated by the
  polling loop and by the callbacks of the radio stack. The globals become one record that
  every function takes and returns. The counters and the samples of a frame, which stay far
  from the 32-bit limits, are integers; the sum over the RSSI history is a 32-bit \<open>int\<close>
  whose wrap-around is written out; \<open>unsigned long\<close> timestamps read from the
  millisecond clock are 32-bit words, so that their subtraction wraps as on the device;
  bytes of a notification are 8-bit words. Output on the serial console and the blocking
  delays are not part of the state. The distance estimate is a function of its own, over the
  reals, with the power function of the C library left to the environment; the global that
  caches its result is not part of the record.
\<close>

type_synonym u8 = "8 word"
type_synonym millis = "32 word"

text \<open>Integer division of C and C++ truncates towards zero.\<close>

definition c_div :: "int \<Rightarrow> int \<Rightarrow> int" where
  "c_div a b = (if (a < 0) = (b < 0) then \<bar>a\<bar> div \<bar>b\<bar> else - (\<bar>a\<bar> div \<bar>b\<bar>))"

text \<open>A 32-bit \<open>int\<close> after an addition: the value wrapped into the two's-complement range.\<close>

definition wrap32 :: "int \<Rightarrow> int" where
  "wrap32 x = (x + 2147483648) mod 4294967296 - 2147483648"

text \<open>
  The client object of the radio stack: all the sketch asks of it is whether the physical
  link is up. An advertised device found by a scan carries its name, address and RSSI.
\<close>

record BLEClient =
  isConnected :: bool

record BLEAdvertisedDevice =
  getName :: string
  getAddress :: string
  getRSSI :: int

record bridge =
  pClient :: "BLEClient option"
  pRemoteChar :: "unit option"
  pWriteChar :: "unit option"
  deviceConnected :: bool
  isConnecting :: bool
  shouldConnect :: bool
  isActiveBridge :: bool
  currentRSSI :: int
  avgRSSI :: int
  deviceMAC :: string
  pendingSpo2 :: int
  pendingHR :: int
  packetsSent :: int
  blePacketsReceived :: int
  connectionAttempts :: int
  reconnections :: int
  consecutiveFailures :: int
  connectionStartTime :: millis
  lastDataTime :: millis
  lastRSSIUpdate :: millis
  lastScanTime :: millis
  lastPostTime :: millis
  lastStatusCheck :: millis
  rssiHistory :: "int list"
  rssiHistoryIndex :: int
  rssiHistoryCount :: int
  foundDevice :: "BLEAdvertisedDevice option"

definition RSSI_HISTORY_SIZE :: int where
  "RSSI_HISTORY_SIZE = 10"

text \<open>The globals as their initialisers leave them.\<close>

definition initial :: bridge where
  "initial = \<lparr> pClient = None, pRemoteChar = None, pWriteChar = None,
     deviceConnected = False, isConnecting = False, shouldConnect = True,
     isActiveBridge = False, currentRSSI = 0, avgRSSI = 0, deviceMAC = [],
     pendingSpo2 = - 1, pendingHR = - 1, packetsSent = 0, blePacketsReceived = 0,
     connectionAttempts = 0, reconnections = 0, consecutiveFailures = 0,
     connectionStartTime = 0, lastDataTime = 0, lastRSSIUpdate = 0, lastScanTime = 0,
     lastPostTime = 0, lastStatusCheck = 0,
     rssiHistory = replicate 10 0, rssiHistoryIndex = 0, rssiHistoryCount = 0,
     foundDevice = None \<rparr>"

section \<open>Frame decoder\<close>

text \<open>
  The two range-based loops of \<open>notifyCallback\<close>: each walks its four samples and
  accumulates the sum and the number of the samples in range.
\<close>

fun hr_loop :: "int list \<Rightarrow> int \<times> int \<Rightarrow> int \<times> int" where
  "hr_loop [] (hr_sum, hr_count) = (hr_sum, hr_count)"
| "hr_loop (h # hs) (hr_sum, hr_count) =
     hr_loop hs (if h \<ge> 30 \<and> h \<le> 220 then (hr_sum + h, hr_count + 1) else (hr_sum, hr_count))"

fun spo2_loop :: "int list \<Rightarrow> int \<times> int \<Rightarrow> int \<times> int" where
  "spo2_loop [] (spo2_sum, spo2_count) = (spo2_sum, spo2_count)"
| "spo2_loop (x # xs) (spo2_sum, spo2_count) =
     spo2_loop xs (if x \<ge> 60 \<and> x \<le> 100 then (spo2_sum + x, spo2_count + 1)
                   else (spo2_sum, spo2_count))"

definition hr_samples :: "u8 list \<Rightarrow> int list" where
  "hr_samples pData = [uint (pData ! 3), uint (pData ! 8), uint (pData ! 13), uint (pData ! 18)]"

definition spo2_samples :: "u8 list \<Rightarrow> int list" where
  "spo2_samples pData = [uint (pData ! 4), uint (pData ! 9), uint (pData ! 14), uint (pData ! 19)]"

text \<open>
  The notification callback of the bridge. The frame is the byte list (its length is the
  callback's \<open>length\<close> argument); \<open>now\<close> is the clock read on acceptance.
\<close>

definition notifyCallback :: "bridge \<Rightarrow> u8 list \<Rightarrow> millis \<Rightarrow> bridge" where
  "notifyCallback s pData now =
     (if length pData \<noteq> 20 then s
      else
        let (hr_sum, hr_count) = hr_loop (hr_samples pData) (0, 0);
            (spo2_sum, spo2_count) = spo2_loop (spo2_samples pData) (0, 0)
        in if hr_count = 0 \<or> spo2_count = 0 then s
           else s\<lparr> pendingHR := c_div hr_sum hr_count,
                   pendingSpo2 := c_div spo2_sum spo2_count,
                   blePacketsReceived := blePacketsReceived s + 1,
                   lastDataTime := now \<rparr>)"

text \<open>
  The two-task variant of the bridge (puente\_ble\_wifi.ino) decodes into a \<open>SensorData\<close>
  value whose zero fields mean "no valid sample", and its callback enqueues the value only
  when both fields are non-zero. The queue holds ten items and a send that finds it full
  gives up at once.
\<close>

record SensorData =
  spo2 :: int
  hr :: int

definition decodePacket :: "u8 list \<Rightarrow> SensorData" where
  "decodePacket pData =
     (let s = \<lparr> spo2 = 0, hr = 0 \<rparr> in
      if length pData \<noteq> 20 then s
      else
        let (hr_sum, hr_count) = hr_loop (hr_samples pData) (0, 0);
            (spo2_sum, spo2_count) = spo2_loop (spo2_samples pData) (0, 0);
            s1 = (if hr_count \<noteq> 0 then s\<lparr> hr := c_div hr_sum hr_count \<rparr> else s);
            s2 = (if spo2_count \<noteq> 0 then s1\<lparr> spo2 := c_div spo2_sum spo2_count \<rparr> else s1)
        in s2)"

definition xQueueSend :: "SensorData list \<Rightarrow> SensorData \<Rightarrow> SensorData list" where
  "xQueueSend dataQueue item = (if length dataQueue < 10 then dataQueue @ [item] else dataQueue)"

definition notifyCallback_queue :: "SensorData list \<Rightarrow> u8 list \<Rightarrow> SensorData list" where
  "notifyCallback_queue dataQueue pData =
     (let data = decodePacket pData in
      if spo2 data \<noteq> 0 \<and> hr data \<noteq> 0 then xQueueSend dataQueue data else dataQueue)"

section \<open>Signal quality estimator\<close>

definition RSSI_EXCELLENT :: int where "RSSI_EXCELLENT = - 60"
definition RSSI_GOOD :: int where "RSSI_GOOD = - 70"
definition RSSI_ACCEPTABLE :: int where "RSSI_ACCEPTABLE = - 80"
definition RSSI_WEAK :: int where "RSSI_WEAK = - 88"
definition RSSI_CRITICAL :: int where "RSSI_CRITICAL = - 94"
definition RSSI_MIN_CONNECT :: int where "RSSI_MIN_CONNECT = - 92"
definition RSSI_FORCE_DISCONNECT :: int where "RSSI_FORCE_DISCONNECT = - 96"

definition getSignalQuality :: "int \<Rightarrow> string" where
  "getSignalQuality rssi =
     (if rssi \<ge> RSSI_EXCELLENT then ''EXCELENTE''
      else if rssi \<ge> RSSI_GOOD then ''BUENA''
      else if rssi \<ge> RSSI_ACCEPTABLE then ''ACEPTABLE''
      else if rssi \<ge> RSSI_WEAK then ''DEBIL''
      else if rssi \<ge> RSSI_CRITICAL then ''CRITICA''
      else ''PERDIDA'')"

text \<open>
  The ladder's order, best first, as a rank: EXCELLENT 5, GOOD 4, ACCEPTABLE 3, WEAK 2,
  CRITICAL 1, LOST 0.
\<close>

definition bucket_rank :: "string \<Rightarrow> nat" where
  "bucket_rank q =
     (if q = ''EXCELENTE'' then 5 else if q = ''BUENA'' then 4
      else if q = ''ACEPTABLE'' then 3 else if q = ''DEBIL'' then 2
      else if q = ''CRITICA'' then 1 else 0)"

text \<open>The summing loop of \<open>updateRSSIHistory\<close>, from index \<open>i\<close> up to the count.\<close>

function sum_loop :: "int list \<Rightarrow> int \<Rightarrow> int \<Rightarrow> int \<Rightarrow> int" where
  "sum_loop h i n acc =
     (if i < n then sum_loop h (i + 1) n (wrap32 (acc + h ! nat i)) else acc)"
  by pat_completeness auto
termination
  by (relation "measure (\<lambda>(h, i, n, acc). nat (n - i))") auto

declare sum_loop.simps [simp del]

definition updateRSSIHistory :: "bridge \<Rightarrow> int \<Rightarrow> bridge" where
  "updateRSSIHistory s rssi =
     (let h = (rssiHistory s)[nat (rssiHistoryIndex s) := rssi];
          idx = (rssiHistoryIndex s + 1) mod RSSI_HISTORY_SIZE;
          cnt = (if rssiHistoryCount s < RSSI_HISTORY_SIZE then rssiHistoryCount s + 1
                 else rssiHistoryCount s);
          rssi_sum = sum_loop h 0 cnt 0
      in s\<lparr> rssiHistory := h, rssiHistoryIndex := idx, rssiHistoryCount := cnt,
              avgRSSI := c_div rssi_sum cnt \<rparr>)"

text \<open>The entry written \<open>k\<close> updates ago (\<open>k = 1\<close> is the latest), as the trend reads it.\<close>

definition hist_back :: "bridge \<Rightarrow> int \<Rightarrow> int" where
  "hist_back s k =
     rssiHistory s ! nat ((rssiHistoryIndex s - k + RSSI_HISTORY_SIZE) mod RSSI_HISTORY_SIZE)"

definition getSignalTrend :: "bridge \<Rightarrow> string" where
  "getSignalTrend s =
     (if rssiHistoryCount s < 4 then ''stable''
      else
        let recent = c_div (hist_back s 1 + hist_back s 2) 2;
            older = c_div (hist_back s 3 + hist_back s 4) 2
        in if recent > older + 3 then ''improving''
           else if recent < older - 5 then ''deteriorating''
           else ''stable'')"





text \<open>
  Both places that take a reading (the end of \<open>connectToDevice\<close> and the RSSI refresh of the
  loop) store it as the current RSSI and push it into the history.
\<close>

definition takeReading :: "bridge \<Rightarrow> int \<Rightarrow> bridge" where
  "takeReading s rssi = updateRSSIHistory (s\<lparr> currentRSSI := rssi \<rparr>) rssi"

text \<open>The history after a sequence of readings, oldest first, from a fresh start.\<close>

definition readings :: "int list \<Rightarrow> bridge" where
  "readings rs = foldl takeReading initial rs"

section \<open>Link connection manager\<close>

text \<open>
  The callbacks that the radio stack invokes on the client: \<open>onConnect\<close> reads the clock
  twice, \<open>onDisconnect\<close> counts a reconnection when the link was up.
\<close>

definition onConnect :: "bridge \<Rightarrow> millis \<Rightarrow> millis \<Rightarrow> bridge" where
  "onConnect s t1 t2 =
     s\<lparr> deviceConnected := True, isConnecting := False, consecutiveFailures := 0,
        connectionStartTime := t1, lastDataTime := t2 \<rparr>"

definition onDisconnect :: "bridge \<Rightarrow> bridge" where
  "onDisconnect s =
     (let wasConnected = deviceConnected s;
          s1 = s\<lparr> deviceConnected := False, isConnecting := False \<rparr>
      in if wasConnected then s1\<lparr> reconnections := reconnections s1 + 1 \<rparr> else s1)"

text \<open>
  Teardown. When the client is still connected the sketch asks the stack to disconnect and
  waits 100 ms; the stack may run \<open>onDisconnect\<close> in that time, which \<open>cb\<close> tells. Then the
  client is deleted and every handle and flag is cleared.
\<close>

definition cleanupConnection :: "bridge \<Rightarrow> bool \<Rightarrow> bridge" where
  "cleanupConnection s cb =
     (let s1 = (case pClient s of
                  None \<Rightarrow> s
                | Some c \<Rightarrow>
                    (let s' = (if isConnected c \<and> cb then onDisconnect s else s)
                     in s'\<lparr> pClient := None \<rparr>))
      in s1\<lparr> pRemoteChar := None, pWriteChar := None,
              deviceConnected := False, isConnecting := False \<rparr>)"

definition forceDisconnect :: "bridge \<Rightarrow> string \<Rightarrow> bool \<Rightarrow> bridge" where
  "forceDisconnect s reason cb = cleanupConnection s cb"

text \<open>
  The number of radio resources the sketch holds: the client object and the two
  characteristic handles.
\<close>

definition resource_count :: "bridge \<Rightarrow> nat" where
  "resource_count s =
     (if pClient s = None then 0 else 1) + (if pRemoteChar s = None then 0 else 1)
     + (if pWriteChar s = None then 0 else 1)"

text \<open>
  What the radio stack and the clock answer during one call of \<open>connectToDevice\<close>: whether
  \<open>onDisconnect\<close> runs during the cleanup before the attempt and during the cleanup of an
  aborted attempt, the result of the connect call (a successful connect has delivered
  \<open>onConnect\<close>), whether the service and the two characteristics resolve, whether the
  notify characteristic can notify, and the successive clock readings.
\<close>

record connect_env =
  cb_before :: bool
  t_start :: millis
  connect_ok :: bool
  t_onConnect1 :: millis
  t_onConnect2 :: millis
  t_connected :: millis
  service_found :: bool
  notify_found :: bool
  canNotify :: bool
  write_found :: bool
  cb_abort :: bool
  t_done :: millis

definition CONNECTION_TIMEOUT :: millis where
  "CONNECTION_TIMEOUT = 8000"

definition connectToDevice :: "bridge \<Rightarrow> connect_env \<Rightarrow> bool \<times> bridge" where
  "connectToDevice s e =
     (if deviceConnected s \<or> isConnecting s then (False, s)
      else case foundDevice s of
        None \<Rightarrow> (False, s)
      | Some dev \<Rightarrow>
          let rssi = getRSSI dev in
          if rssi < RSSI_MIN_CONNECT then (False, s)
          else if \<not> shouldConnect s then (False, s)
          else
            let s1 = s\<lparr> isConnecting := True, connectionAttempts := connectionAttempts s + 1 \<rparr>;
                s2 = cleanupConnection s1 (cb_before e);
                s3 = s2\<lparr> pClient := Some \<lparr> isConnected = False \<rparr> \<rparr>
            in if \<not> connect_ok e then
                 (False, cleanupConnection
                    (s3\<lparr> isConnecting := False,
                         consecutiveFailures := consecutiveFailures s3 + 1 \<rparr>) (cb_abort e))
               else
                 let s4 = onConnect (s3\<lparr> pClient := Some \<lparr> isConnected = True \<rparr> \<rparr>)
                            (t_onConnect1 e) (t_onConnect2 e);
                     failed = (\<lambda>x. (False, cleanupConnection
                                 (x\<lparr> consecutiveFailures := consecutiveFailures x + 1 \<rparr>)
                                 (cb_abort e)))
                 in if t_connected e - t_start e > CONNECTION_TIMEOUT then failed s4
                    else if \<not> service_found e then failed s4
                    else if \<not> notify_found e then failed (s4\<lparr> pRemoteChar := None \<rparr>)
                    else
                      let s5 = s4\<lparr> pRemoteChar := Some () \<rparr> in
                      if \<not> canNotify e then failed s5
                      else
                        let s6 = s5\<lparr> pWriteChar := (if write_found e then Some () else None) \<rparr>;
                            s7 = s6\<lparr> currentRSSI := rssi \<rparr>;
                            s8 = updateRSSIHistory s7 rssi
                        in (True, s8\<lparr> lastRSSIUpdate := t_done e \<rparr>))"

section \<open>Telemetry publisher and arbitration client\<close>

text \<open>
  The JSON body of a proxy answer, as the sketch reads it: each of the three fields is
  absent or carries a boolean. \<open>None\<close> for the whole body is an answer that does not parse.
\<close>

record proxy_response =
  is_active_bridge :: "bool option"
  should_connect :: "bool option"
  release_connection :: "bool option"

record http_env =
  wifi_connected :: bool
  clock :: millis
  clock_mark :: millis
  httpCode :: int
  response :: "proxy_response option"
  cb_disconnect :: bool

definition or_default :: "bool option \<Rightarrow> bool \<Rightarrow> bool" where
  "or_default v d = (case v of None \<Rightarrow> d | Some b \<Rightarrow> b)"

text \<open>The document that \<open>sendDataToProxy\<close> serialises (without the cached distance).\<close>

record telemetry =
  doc_device :: string
  doc_spo2 :: int
  doc_hr :: int
  doc_rssi :: int
  doc_avg_rssi :: int
  doc_signal_quality :: string
  doc_packet_count :: int
  doc_ble_packets :: int
  doc_is_connected :: bool
  doc_connection_time :: millis
  doc_signal_trend :: string
  doc_device_mac :: string

definition BRIDGE_ID :: string where
  "BRIDGE_ID = ''ESP32_LAB''"

definition telemetry_doc :: "bridge \<Rightarrow> millis \<Rightarrow> telemetry" where
  "telemetry_doc s now =
     \<lparr> doc_device = BRIDGE_ID, doc_spo2 = pendingSpo2 s, doc_hr = pendingHR s,
       doc_rssi = currentRSSI s, doc_avg_rssi = avgRSSI s,
       doc_signal_quality = getSignalQuality (currentRSSI s),
       doc_packet_count = packetsSent s, doc_ble_packets = blePacketsReceived s,
       doc_is_connected = deviceConnected s,
       doc_connection_time =
         (if deviceConnected s then (now - connectionStartTime s) div 1000 else 0),
       doc_signal_trend = getSignalTrend s, doc_device_mac = deviceMAC s \<rparr>"

definition sendDataToProxy :: "bridge \<Rightarrow> http_env \<Rightarrow> bool \<times> bridge" where
  "sendDataToProxy s e =
     (if \<not> wifi_connected e then (False, s)
      else if pendingSpo2 s < 0 \<or> pendingHR s < 0 then (False, s)
      else if httpCode e = 200 then
        let s1 = (case response e of
                    None \<Rightarrow> s
                  | Some respDoc \<Rightarrow>
                      let s' = s\<lparr> isActiveBridge := or_default (is_active_bridge respDoc) False,
                                  shouldConnect := or_default (should_connect respDoc) True \<rparr>
                      in if release_connection respDoc = Some True then
                           (if deviceConnected s' then
                              forceDisconnect s' ''Handoff solicitado por proxy'' (cb_disconnect e)
                            else s')
                         else s')
        in (True, s1\<lparr> packetsSent := packetsSent s1 + 1, pendingSpo2 := - 1, pendingHR := - 1 \<rparr>)
      else (False, s))"

definition STATUS_CHECK_INTERVAL :: millis where
  "STATUS_CHECK_INTERVAL = 3000"

definition checkProxyStatus :: "bridge \<Rightarrow> http_env \<Rightarrow> bridge" where
  "checkProxyStatus s e =
     (if \<not> wifi_connected e then s
      else if clock e - lastStatusCheck s < STATUS_CHECK_INTERVAL then s
      else
        let s1 = s\<lparr> lastStatusCheck := clock_mark e \<rparr> in
        if httpCode e = 200 then
          (case response e of
             None \<Rightarrow> s1
           | Some doc \<Rightarrow>
               let s2 = s1\<lparr> shouldConnect := or_default (should_connect doc) True,
                            isActiveBridge := or_default (is_active_bridge doc) False \<rparr>
               in if \<not> shouldConnect s2 \<and> deviceConnected s2 then
                    forceDisconnect s2 ''Proxy indica mejor bridge disponible'' (cb_disconnect e)
                  else s2)
        else s1)"

section \<open>Notions of the specification and test data\<close>

text \<open>
  The valid candidates of a frame in the specification's words: the bytes at offsets 3, 8,
  13, 18 that lie in 30..220, and the bytes at offsets 4, 9, 14, 19 that lie in 60..100.
\<close>

definition hr_candidates :: "u8 list \<Rightarrow> int list" where
  "hr_candidates pData =
     filter (\<lambda>h. 30 \<le> h \<and> h \<le> 220) (map uint [pData ! 3, pData ! 8, pData ! 13, pData ! 18])"

definition spo2_candidates :: "u8 list \<Rightarrow> int list" where
  "spo2_candidates pData =
     filter (\<lambda>x. 60 \<le> x \<and> x \<le> 100) (map uint [pData ! 4, pData ! 9, pData ! 14, pData ! 19])"

text \<open>
  Frames used as concrete inputs: the specification's example; a frame of ten bytes; a
  frame of twenty bytes without any SpO2 byte in range; a frame with bytes on and just
  beyond the limits of both ranges.
\<close>

definition example_frame :: "u8 list" where
  "example_frame = [0, 0, 0, 72, 98, 0, 0, 0, 75, 97, 0, 0, 0, 74, 98, 0, 0, 0, 0, 200]"

definition short_frame :: "u8 list" where
  "short_frame = [0, 0, 0, 72, 98, 0, 0, 0, 75, 97]"

definition no_spo2_frame :: "u8 list" where
  "no_spo2_frame = [0, 0, 0, 72, 59, 0, 0, 0, 75, 101, 0, 0, 0, 74, 0, 0, 0, 0, 0, 200]"

definition edge_frame :: "u8 list" where
  "edge_frame = [0, 0, 0, 220, 100, 0, 0, 0, 221, 101, 0, 0, 0, 29, 59, 0, 0, 0, 255, 255]"


text \<open>
  Concrete situations used as inputs: an advertised wearable seen at a given RSSI; a radio
  stack on which every step of a connection succeeds; the bridge after a scan has found the
  wearable; the bridge streaming, one sample pending; and an answer of the proxy with status
  200 carrying the given \<open>should_connect\<close> and \<open>release_connection\<close> fields.
\<close>

definition candidate :: "int \<Rightarrow> BLEAdvertisedDevice" where
  "candidate r = \<lparr> getName = ''BerryMed'', getAddress = ''00:a0:50:36:ff:de'', getRSSI = r \<rparr>"

definition radio_ok :: connect_env where
  "radio_ok = \<lparr> cb_before = False, t_start = 1000, connect_ok = True, t_onConnect1 = 1200,
     t_onConnect2 = 1200, t_connected = 1250, service_found = True, notify_found = True,
     canNotify = True, write_found = True, cb_abort = True, t_done = 1300 \<rparr>"

definition found :: "int \<Rightarrow> bridge" where
  "found r = initial\<lparr> foundDevice := Some (candidate r) \<rparr>"

definition streaming :: bridge where
  "streaming = notifyCallback (snd (connectToDevice (found (- 60)) radio_ok)) example_frame 1500"

definition answer :: "bool option \<Rightarrow> bool option \<Rightarrow> http_env" where
  "answer sc rc = \<lparr> wifi_connected = True, clock = 5000, clock_mark = 5001, httpCode = 200,
     response = Some \<lparr> is_active_bridge = Some False, should_connect = sc,
                       release_connection = rc \<rparr>,
     cb_disconnect = True \<rparr>"

section \<open>Frame decoder: results\<close>

lemma c_div_nonneg: "0 \<le> a \<Longrightarrow> 0 < b \<Longrightarrow> c_div a b = a div b"
  by (simp add: c_div_def)

lemma hr_loop_filter:
  "hr_loop xs (a, c) =
     (a + sum_list (filter (\<lambda>h. 30 \<le> h \<and> h \<le> 220) xs),
      c + int (length (filter (\<lambda>h. 30 \<le> h \<and> h \<le> 220) xs)))"
  by (induction xs arbitrary: a c) auto

lemma spo2_loop_filter:
  "spo2_loop xs (a, c) =
     (a + sum_list (filter (\<lambda>x. 60 \<le> x \<and> x \<le> 100) xs),
      c + int (length (filter (\<lambda>x. 60 \<le> x \<and> x \<le> 100) xs)))"
  by (induction xs arbitrary: a c) auto

lemma sum_list_bounds:
  fixes xs :: "int list"
  assumes "\<forall>x \<in> set xs. lo \<le> x \<and> x \<le> hi"
  shows "lo * int (length xs) \<le> sum_list xs \<and> sum_list xs \<le> hi * int (length xs)"
  using assms by (induction xs) (auto simp: algebra_simps)

lemma mean_bounds:
  fixes xs :: "int list"
  assumes "\<forall>x \<in> set xs. lo \<le> x \<and> x \<le> hi" and "xs \<noteq> []"
  shows "lo \<le> sum_list xs div int (length xs) \<and> sum_list xs div int (length xs) \<le> hi"
proof -
  let ?n = "int (length xs)"
  have n: "0 < ?n" using assms(2) by simp
  from sum_list_bounds[OF assms(1)]
  have b: "lo * ?n \<le> sum_list xs" "sum_list xs \<le> hi * ?n" by auto
  have "(lo * ?n) div ?n \<le> sum_list xs div ?n"
    using b(1) n by (intro zdiv_mono1) auto
  moreover have "sum_list xs div ?n \<le> (hi * ?n) div ?n"
    using b(2) n by (intro zdiv_mono1) auto
  ultimately show ?thesis using n by simp
qed

lemma notifyCallback_accept:
  assumes "length pData = 20"
      and "filter (\<lambda>h. 30 \<le> h \<and> h \<le> 220) (hr_samples pData) = hv"
      and "filter (\<lambda>x. 60 \<le> x \<and> x \<le> 100) (spo2_samples pData) = sv"
      and "hv \<noteq> []" and "sv \<noteq> []"
  shows "notifyCallback s pData now =
           s\<lparr> pendingHR := sum_list hv div int (length hv),
              pendingSpo2 := sum_list sv div int (length sv),
              blePacketsReceived := blePacketsReceived s + 1,
              lastDataTime := now \<rparr>"
proof -
  have h0: "0 \<le> sum_list hv" using assms(2) by (intro sum_list_nonneg) auto
  have s0: "0 \<le> sum_list sv" using assms(3) by (intro sum_list_nonneg) auto
  show ?thesis
    using assms h0 s0
    by (simp add: notifyCallback_def hr_loop_filter spo2_loop_filter c_div_nonneg)
qed

lemma notifyCallback_reject:
  assumes "length pData \<noteq> 20
      \<or> filter (\<lambda>h. 30 \<le> h \<and> h \<le> 220) (hr_samples pData) = []
      \<or> filter (\<lambda>x. 60 \<le> x \<and> x \<le> 100) (spo2_samples pData) = []"
  shows "notifyCallback s pData now = s"
  using assms
  by (auto simp add: notifyCallback_def hr_loop_filter spo2_loop_filter)

lemma bridge_changed: "(s :: bridge)\<lparr> pendingHR := a, pendingSpo2 := b,
    blePacketsReceived := blePacketsReceived s + 1, lastDataTime := t \<rparr> \<noteq> s"
proof
  assume "s\<lparr> pendingHR := a, pendingSpo2 := b,
    blePacketsReceived := blePacketsReceived s + 1, lastDataTime := t \<rparr> = s"
  then have "blePacketsReceived (s\<lparr> pendingHR := a, pendingSpo2 := b,
    blePacketsReceived := blePacketsReceived s + 1, lastDataTime := t \<rparr>) = blePacketsReceived s"
    by simp
  then show False by simp
qed

lemma hr_candidates_alt:
  "hr_candidates pData = filter (\<lambda>h. 30 \<le> h \<and> h \<le> 220) (hr_samples pData)"
  by (simp add: hr_candidates_def hr_samples_def)

lemma spo2_candidates_alt:
  "spo2_candidates pData = filter (\<lambda>x. 60 \<le> x \<and> x \<le> 100) (spo2_samples pData)"
  by (simp add: spo2_candidates_def spo2_samples_def)

lemma notifyCallback_cases:
  "notifyCallback s pData now =
     (if length pData = 20 \<and> hr_candidates pData \<noteq> [] \<and> spo2_candidates pData \<noteq> []
      then s\<lparr> pendingHR := sum_list (hr_candidates pData) div int (length (hr_candidates pData)),
              pendingSpo2 :=
                sum_list (spo2_candidates pData) div int (length (spo2_candidates pData)),
              blePacketsReceived := blePacketsReceived s + 1,
              lastDataTime := now \<rparr>
      else s)"
proof (cases "length pData = 20 \<and> hr_candidates pData \<noteq> [] \<and> spo2_candidates pData \<noteq> []")
  case True
  then show ?thesis
    using notifyCallback_accept[of pData "hr_candidates pData" "spo2_candidates pData" s now]
    by (simp add: hr_candidates_alt spo2_candidates_alt)
next
  case False
  then show ?thesis
    using notifyCallback_reject[of pData s now]
    by (auto simp add: hr_candidates_alt spo2_candidates_alt)
qed

text \<open>
  Claim C1. For a frame of 20 bytes with a valid candidate in each channel, the heart rate
  that the callback stores is the integer-truncated mean of the bytes at offsets 3, 8, 13,
  18 that lie in 30..220, and the SpO2 it stores is the integer-truncated mean of the bytes
  at offsets 4, 9, 14, 19 that lie in 60..100. A frame with the bytes of the specification's
  example (72, 75, 74, 0 and 98, 97, 98, 200) gives heart rate 73 and SpO2 97.
\<close>

theorem decoded_vitals_are_truncated_means:
  "(length pData = 20 \<and> hr_candidates pData \<noteq> [] \<and> spo2_candidates pData \<noteq> [] \<longrightarrow>
      pendingHR (notifyCallback s pData now)
        = sum_list (hr_candidates pData) div int (length (hr_candidates pData)) \<and>
      pendingSpo2 (notifyCallback s pData now)
        = sum_list (spo2_candidates pData) div int (length (spo2_candidates pData)))
   \<and> (length pData = 20 \<and> pData ! 3 = 72 \<and> pData ! 8 = 75 \<and> pData ! 13 = 74 \<and> pData ! 18 = 0
        \<and> pData ! 4 = 98 \<and> pData ! 9 = 97 \<and> pData ! 14 = 98 \<and> pData ! 19 = 200 \<longrightarrow>
      pendingHR (notifyCallback s pData now) = 73 \<and>
      pendingSpo2 (notifyCallback s pData now) = 97)"
proof (intro conjI impI)
  assume a: "length pData = 20 \<and> hr_candidates pData \<noteq> [] \<and> spo2_candidates pData \<noteq> []"
  then show "pendingHR (notifyCallback s pData now)
        = sum_list (hr_candidates pData) div int (length (hr_candidates pData))"
    by (simp add: notifyCallback_cases)
  from a show "pendingSpo2 (notifyCallback s pData now)
        = sum_list (spo2_candidates pData) div int (length (spo2_candidates pData))"
    by (simp add: notifyCallback_cases)
next
  assume b: "length pData = 20 \<and> pData ! 3 = 72 \<and> pData ! 8 = 75 \<and> pData ! 13 = 74
        \<and> pData ! 18 = 0 \<and> pData ! 4 = 98 \<and> pData ! 9 = 97 \<and> pData ! 14 = 98 \<and> pData ! 19 = 200"
  then have h: "hr_candidates pData = [72, 75, 74]" and sp: "spo2_candidates pData = [98, 97, 98]"
    by (simp_all add: hr_candidates_def spo2_candidates_def)
  from b h sp show "pendingHR (notifyCallback s pData now) = 73"
    by (simp add: notifyCallback_cases)
  from b h sp show "pendingSpo2 (notifyCallback s pData now) = 97"
    by (simp add: notifyCallback_cases)
qed

text \<open>The specification's example frame, decoded from the initial state.\<close>

theorem decoded_vitals_witness:
  "length example_frame = 20 \<and> hr_candidates example_frame = [72, 75, 74]
   \<and> spo2_candidates example_frame = [98, 97, 98]
   \<and> pendingHR (notifyCallback initial example_frame 0) = 73
   \<and> pendingSpo2 (notifyCallback initial example_frame 0) = 97"
  using decoded_vitals_are_truncated_means[of example_frame initial 0]
  by (simp add: example_frame_def hr_candidates_def spo2_candidates_def)

lemma hr_candidates_range: "x \<in> set (hr_candidates pData) \<Longrightarrow> 30 \<le> x \<and> x \<le> 220"
  unfolding hr_candidates_def set_filter by simp

lemma spo2_candidates_range: "x \<in> set (spo2_candidates pData) \<Longrightarrow> 60 \<le> x \<and> x \<le> 100"
  unfolding spo2_candidates_def set_filter by simp

lemma hr_mean_range:
  "hr_candidates pData \<noteq> [] \<Longrightarrow>
     30 \<le> sum_list (hr_candidates pData) div int (length (hr_candidates pData)) \<and>
     sum_list (hr_candidates pData) div int (length (hr_candidates pData)) \<le> 220"
  by (rule mean_bounds) (auto dest: hr_candidates_range)

lemma spo2_mean_range:
  "spo2_candidates pData \<noteq> [] \<Longrightarrow>
     60 \<le> sum_list (spo2_candidates pData) div int (length (spo2_candidates pData)) \<and>
     sum_list (spo2_candidates pData) div int (length (spo2_candidates pData)) \<le> 100"
  by (rule mean_bounds) (auto dest: spo2_candidates_range)

lemma notifyCallback_fixed_iff:
  "notifyCallback s pData now = s \<longleftrightarrow>
     length pData \<noteq> 20 \<or> hr_candidates pData = [] \<or> spo2_candidates pData = []"
  using bridge_changed by (auto simp add: notifyCallback_cases)

lemma decodePacket_cases:
  "decodePacket pData =
     \<lparr> spo2 = (if length pData = 20 \<and> spo2_candidates pData \<noteq> []
               then sum_list (spo2_candidates pData) div int (length (spo2_candidates pData))
               else 0),
       hr = (if length pData = 20 \<and> hr_candidates pData \<noteq> []
             then sum_list (hr_candidates pData) div int (length (hr_candidates pData))
             else 0) \<rparr>"
proof -
  have h0: "0 \<le> sum_list (hr_candidates pData)"
    by (rule sum_list_nonneg) (auto dest: hr_candidates_range)
  have s0: "0 \<le> sum_list (spo2_candidates pData)"
    by (rule sum_list_nonneg) (auto dest: spo2_candidates_range)
  show ?thesis
    using h0 s0
    by (simp add: decodePacket_def Let_def hr_loop_filter spo2_loop_filter c_div_nonneg
        hr_candidates_alt spo2_candidates_alt)
qed

lemma decodePacket_gate:
  "spo2 (decodePacket pData) \<noteq> 0 \<and> hr (decodePacket pData) \<noteq> 0 \<longleftrightarrow>
     length pData = 20 \<and> hr_candidates pData \<noteq> [] \<and> spo2_candidates pData \<noteq> []"
  using hr_mean_range[of pData] spo2_mean_range[of pData]
  by (auto simp add: decodePacket_cases)

text \<open>
  Claim C2. The callback leaves the state (so the pending sample) untouched exactly when the
  frame is not 20 bytes long or one of the two channels has no valid candidate; the length
  test alone decides for a frame of another length. The queueing variant agrees: its decoded
  value passes the non-zero test exactly on the other frames, and a rejected frame leaves the
  queue as it was.
\<close>

theorem decoder_rejects_exactly:
  "(notifyCallback s pData now = s \<longleftrightarrow>
      length pData \<noteq> 20 \<or> hr_candidates pData = [] \<or> spo2_candidates pData = [])
   \<and> (spo2 (decodePacket pData) \<noteq> 0 \<and> hr (decodePacket pData) \<noteq> 0 \<longleftrightarrow>
      \<not> (length pData \<noteq> 20 \<or> hr_candidates pData = [] \<or> spo2_candidates pData = []))
   \<and> (length pData \<noteq> 20 \<or> hr_candidates pData = [] \<or> spo2_candidates pData = [] \<longrightarrow>
      notifyCallback_queue dataQueue pData = dataQueue)"
proof (intro conjI)
  show "notifyCallback s pData now = s \<longleftrightarrow>
      length pData \<noteq> 20 \<or> hr_candidates pData = [] \<or> spo2_candidates pData = []"
    by (rule notifyCallback_fixed_iff)
  show g: "spo2 (decodePacket pData) \<noteq> 0 \<and> hr (decodePacket pData) \<noteq> 0 \<longleftrightarrow>
      \<not> (length pData \<noteq> 20 \<or> hr_candidates pData = [] \<or> spo2_candidates pData = [])"
    using decodePacket_gate[of pData] by blast
  show "length pData \<noteq> 20 \<or> hr_candidates pData = [] \<or> spo2_candidates pData = [] \<longrightarrow>
      notifyCallback_queue dataQueue pData = dataQueue"
    using g by (auto simp add: notifyCallback_queue_def Let_def)
qed

text \<open>A short frame and a frame without valid SpO2 are rejected, the example frame is not.\<close>

theorem decoder_rejects_witness:
  "length short_frame \<noteq> 20 \<and> notifyCallback initial short_frame 7 = initial
   \<and> notifyCallback_queue [] short_frame = []
   \<and> length no_spo2_frame = 20 \<and> hr_candidates no_spo2_frame = [72, 75, 74]
   \<and> spo2_candidates no_spo2_frame = []
   \<and> notifyCallback initial no_spo2_frame 7 = initial
   \<and> notifyCallback_queue [] no_spo2_frame = []
   \<and> notifyCallback initial example_frame 7 \<noteq> initial
   \<and> spo2 (decodePacket example_frame) \<noteq> 0 \<and> hr (decodePacket example_frame) \<noteq> 0"
  using decoder_rejects_exactly[of initial short_frame 7 "[]"]
    decoder_rejects_exactly[of initial no_spo2_frame 7 "[]"]
    decoder_rejects_exactly[of initial example_frame 7 "[]"]
  by (simp add: short_frame_def no_spo2_frame_def example_frame_def
      hr_candidates_def spo2_candidates_def)

text \<open>
  Claim C10. Whenever the callback stores a sample, the stored heart rate lies in 30..220
  and the stored SpO2 in 60..100; both are strictly positive, hence different from the
  value -1 that marks the empty slot.
\<close>

theorem accepted_sample_in_range:
  "notifyCallback s pData now \<noteq> s \<Longrightarrow>
     30 \<le> pendingHR (notifyCallback s pData now) \<and>
     pendingHR (notifyCallback s pData now) \<le> 220 \<and>
     60 \<le> pendingSpo2 (notifyCallback s pData now) \<and>
     pendingSpo2 (notifyCallback s pData now) \<le> 100 \<and>
     pendingHR (notifyCallback s pData now) > 0 \<and>
     pendingSpo2 (notifyCallback s pData now) > 0 \<and>
     pendingHR (notifyCallback s pData now) \<noteq> - 1 \<and>
     pendingSpo2 (notifyCallback s pData now) \<noteq> - 1"
proof -
  assume "notifyCallback s pData now \<noteq> s"
  then have a: "length pData = 20" "hr_candidates pData \<noteq> []" "spo2_candidates pData \<noteq> []"
    by (simp_all add: notifyCallback_fixed_iff)
  show ?thesis
    using a hr_mean_range[OF a(2)] spo2_mean_range[OF a(3)]
    by (simp add: notifyCallback_cases)
qed

text \<open>A frame whose only valid bytes are the upper limits 220 and 100.\<close>

theorem accepted_sample_witness:
  "notifyCallback initial edge_frame 9 \<noteq> initial
   \<and> pendingHR (notifyCallback initial edge_frame 9) = 220
   \<and> pendingSpo2 (notifyCallback initial edge_frame 9) = 100
   \<and> pendingHR initial = - 1 \<and> pendingSpo2 initial = - 1"
proof -
  have ne: "notifyCallback initial edge_frame 9 \<noteq> initial"
    by (simp add: notifyCallback_fixed_iff edge_frame_def hr_candidates_def spo2_candidates_def)
  have v: "pendingHR (notifyCallback initial edge_frame 9) = 220"
          "pendingSpo2 (notifyCallback initial edge_frame 9) = 100"
    by (simp_all add: notifyCallback_cases edge_frame_def hr_candidates_def spo2_candidates_def)
  show ?thesis
    using accepted_sample_in_range[OF ne] ne v by (simp add: initial_def)
qed

section \<open>Signal quality estimator: results\<close>

text \<open>
  As long as every entry summed lies within 214748364 of zero, no sum of at most ten entries
  leaves the 32-bit range, and the summing loop adds up the first \<open>n\<close> entries of the
  buffer.
\<close>

lemma wrap32_id: "- 2147483648 \<le> x \<Longrightarrow> x < 2147483648 \<Longrightarrow> wrap32 x = x"
  by (simp add: wrap32_def)

lemma sum_loop_drop_take:
  "0 \<le> i \<Longrightarrow> i \<le> n \<Longrightarrow> n \<le> int (length h) \<Longrightarrow> n \<le> 10 \<Longrightarrow>
   \<forall>x \<in> set (take (nat n) h). - 214748364 \<le> x \<and> x \<le> 214748364 \<Longrightarrow>
   - 214748364 * i \<le> acc \<Longrightarrow> acc \<le> 214748364 * i \<Longrightarrow>
     sum_loop h i n acc = acc + sum_list (drop (nat i) (take (nat n) h))"
proof (induction h i n acc rule: sum_loop.induct)
  case (1 h i n acc)
  show ?case
  proof (cases "i < n")
    case True
    have lt: "nat i < length (take (nat n) h)" using True 1(2,4) by simp
    then have "take (nat n) h ! nat i \<in> set (take (nat n) h)" by (rule nth_mem)
    moreover have "take (nat n) h ! nat i = h ! nat i" using True 1(2) by simp
    ultimately have b: "- 214748364 \<le> h ! nat i" "h ! nat i \<le> 214748364"
      using 1(6) by auto
    have lo: "- 214748364 * (i + 1) \<le> acc + h ! nat i" using b(1) 1(7) by simp
    have hi: "acc + h ! nat i \<le> 214748364 * (i + 1)" using b(2) 1(8) by simp
    have w: "wrap32 (acc + h ! nat i) = acc + h ! nat i"
      using lo hi True 1(5) by (intro wrap32_id) simp_all
    have "sum_loop h i n acc = sum_loop h (i + 1) n (acc + h ! nat i)"
      using True w by (subst sum_loop.simps) simp
    also have "\<dots> = acc + h ! nat i + sum_list (drop (nat (i + 1)) (take (nat n) h))"
      using 1(1)[OF True] True 1(2,4,5,6) w lo hi by simp
    also have "nat (i + 1) = Suc (nat i)" using 1(2) by simp
    also have "acc + h ! nat i + sum_list (drop (Suc (nat i)) (take (nat n) h))
                 = acc + sum_list (drop (nat i) (take (nat n) h))"
      using Cons_nth_drop_Suc[OF lt, symmetric] True 1(2) by simp
    finally show ?thesis .
  next
    case False
    then have "i = n" using 1(3) by simp
    then show ?thesis by (subst sum_loop.simps) simp
  qed
qed

lemma sum_loop_take:
  "0 \<le> n \<Longrightarrow> n \<le> int (length h) \<Longrightarrow> n \<le> 10 \<Longrightarrow>
   \<forall>x \<in> set (take (nat n) h). - 214748364 \<le> x \<and> x \<le> 214748364 \<Longrightarrow>
     sum_loop h 0 n 0 = sum_list (take (nat n) h)"
  using sum_loop_drop_take[of 0 n h 0] by simp

text \<open>
  The ring buffer after a run of readings: rotated by the write index it is the last ten
  entries of the readings, preceded by the initial zeros while fewer than ten were taken.
\<close>

lemma readings_snoc: "readings (rs @ [r]) = takeReading (readings rs) r"
  by (simp add: readings_def)

lemma takeReading_fields:
  "rssiHistory (takeReading s r) = (rssiHistory s)[nat (rssiHistoryIndex s) := r]"
  "rssiHistoryIndex (takeReading s r) = (rssiHistoryIndex s + 1) mod 10"
  "rssiHistoryCount (takeReading s r) =
     (if rssiHistoryCount s < 10 then rssiHistoryCount s + 1 else rssiHistoryCount s)"
  "currentRSSI (takeReading s r) = r"
  "avgRSSI (takeReading s r) =
     c_div (sum_loop (rssiHistory (takeReading s r)) 0 (rssiHistoryCount (takeReading s r)) 0)
       (rssiHistoryCount (takeReading s r))"
  by (simp_all add: takeReading_def updateRSSIHistory_def Let_def RSSI_HISTORY_SIZE_def)

lemma ring_step_index: "(Suc n mod 10 + j) mod 10 = (n mod 10 + Suc j) mod 10"
proof -
  have "(Suc n mod 10 + j) mod 10 = (Suc n + j) mod 10" by (rule mod_add_left_eq)
  moreover have "(n mod 10 + Suc j) mod 10 = (n + Suc j) mod 10" by (rule mod_add_left_eq)
  ultimately show ?thesis by simp
qed

lemma ring_step_distinct_aux: "a < 10 \<Longrightarrow> j < 9 \<Longrightarrow> (a + Suc j) mod 10 \<noteq> (a::nat)"
proof (cases "a + Suc j < 10")
  case True
  then show ?thesis by simp
next
  case False
  assume "a < 10" "j < 9"
  with False have "(a + Suc j) mod 10 = a + Suc j - 10"
    by (simp add: le_mod_geq)
  with \<open>j < 9\<close> False show ?thesis by simp
qed

lemma ring_step_distinct: "j < 9 \<Longrightarrow> (n mod 10 + Suc j) mod 10 \<noteq> n mod 10"
  by (rule ring_step_distinct_aux) simp_all

lemma ring_step_wrap: "(Suc n mod 10 + 9) mod 10 = n mod 10"
proof -
  have "(Suc n mod 10 + 9) mod 10 = (n + 10) mod 10" by (simp add: mod_simps)
  then show ?thesis by simp
qed

lemma ring_index_int: "(int (n mod 10) + 1) mod 10 = int (Suc n mod 10)"
  by (simp add: zmod_int mod_simps add.commute)

lemma rotate_push:
  assumes len: "length h = 10"
  shows "rotate (Suc n mod 10) (h[n mod 10 := r]) = tl (rotate (n mod 10) h) @ [r]"
proof (rule nth_equalityI)
  show "length (rotate (Suc n mod 10) (h[n mod 10 := r])) = length (tl (rotate (n mod 10) h) @ [r])"
    using len by simp
next
  fix j assume "j < length (rotate (Suc n mod 10) (h[n mod 10 := r]))"
  then have j: "j < 10" using len by simp
  have l: "rotate (Suc n mod 10) (h[n mod 10 := r]) ! j = (h[n mod 10 := r]) ! ((Suc n mod 10 + j) mod 10)"
    using j len by (simp add: nth_rotate)
  show "rotate (Suc n mod 10) (h[n mod 10 := r]) ! j = (tl (rotate (n mod 10) h) @ [r]) ! j"
  proof (cases "j = 9")
    case True
    have "(Suc n mod 10 + 9) mod 10 = n mod 10" by (rule ring_step_wrap)
    then show ?thesis using True l len by (simp add: nth_append)
  next
    case False
    then have j9: "j < 9" using j by simp
    have eq: "(Suc n mod 10 + j) mod 10 = (n mod 10 + Suc j) mod 10" by (rule ring_step_index)
    have ne: "(Suc n mod 10 + j) mod 10 \<noteq> n mod 10"
      using ring_step_distinct[OF j9, of n] eq by simp
    have "(tl (rotate (n mod 10) h) @ [r]) ! j = rotate (n mod 10) h ! Suc j"
      using j9 len by (simp add: nth_append nth_tl)
    also have "\<dots> = h ! ((n mod 10 + Suc j) mod 10)"
      using j9 len by (simp add: nth_rotate)
    finally show ?thesis using l ne eq by simp
  qed
qed

lemma readings_inv:
  "length (rssiHistory (readings rs)) = 10 \<and>
   rssiHistoryIndex (readings rs) = int (length rs mod 10) \<and>
   rssiHistoryCount (readings rs) = int (min (length rs) 10) \<and>
   rotate (length rs mod 10) (rssiHistory (readings rs)) = drop (length rs) (replicate 10 0 @ rs)"
proof (induction rs rule: rev_induct)
  case Nil
  show ?case by (simp add: readings_def initial_def)
next
  case (snoc r rs)
  let ?s = "readings rs" and ?n = "length rs"
  from snoc have len: "length (rssiHistory ?s) = 10"
    and idx: "rssiHistoryIndex ?s = int (?n mod 10)"
    and cnt: "rssiHistoryCount ?s = int (min ?n 10)"
    and rot: "rotate (?n mod 10) (rssiHistory ?s) = drop ?n (replicate 10 0 @ rs)"
    by simp_all
  have 1: "length (rssiHistory (readings (rs @ [r]))) = 10"
    using len by (simp add: readings_snoc takeReading_fields)
  have "(int (?n mod 10) + 1) mod 10 = int (Suc ?n mod 10)"
    by (rule ring_index_int)
  then have 2: "rssiHistoryIndex (readings (rs @ [r])) = int (length (rs @ [r]) mod 10)"
    using idx by (simp add: readings_snoc takeReading_fields)
  have 3: "rssiHistoryCount (readings (rs @ [r])) = int (min (length (rs @ [r])) 10)"
    using cnt by (simp add: readings_snoc takeReading_fields)
  have "rotate (Suc ?n mod 10) (rssiHistory (readings (rs @ [r])))
          = tl (rotate (?n mod 10) (rssiHistory ?s)) @ [r]"
    using rotate_push[OF len, of ?n r] idx by (simp add: readings_snoc takeReading_fields)
  also have "\<dots> = tl (drop ?n (replicate 10 0 @ rs)) @ [r]" using rot by simp
  also have "\<dots> = drop (Suc ?n) (replicate 10 0 @ rs) @ [r]" by (simp only: drop_Suc tl_drop)
  also have "\<dots> = drop (Suc ?n) (replicate 10 0 @ rs @ [r])" by simp
  finally have 4: "rotate (length (rs @ [r]) mod 10) (rssiHistory (readings (rs @ [r])))
          = drop (length (rs @ [r])) (replicate 10 0 @ rs @ [r])" by simp
  from 1 2 3 4 show ?case by blast
qed

lemma sum_list_rotate: "sum_list (rotate n xs) = sum_list (xs :: int list)"
proof -
  have "sum_list (rotate n xs)
          = sum_list (drop (n mod length xs) xs) + sum_list (take (n mod length xs) xs)"
    by (simp add: rotate_drop_take)
  also have "\<dots> = sum_list (take (n mod length xs) xs @ drop (n mod length xs) xs)"
    by (simp only: sum_list_append add.commute)
  finally show ?thesis by simp
qed

lemma window_short:
  assumes "length rs < 10"
  shows "take (length rs) (rssiHistory (readings rs)) = rs"
proof -
  let ?h = "rssiHistory (readings rs)" and ?n = "length rs"
  have len: "length ?h = 10" using readings_inv[of rs] by simp
  have "rotate ?n ?h = drop ?n (replicate 10 0 @ rs)"
    using readings_inv[of rs] assms by simp
  then have "drop ?n ?h @ take ?n ?h = replicate (10 - ?n) 0 @ rs"
    using assms len by (simp add: rotate_drop_take)
  moreover have "length (drop ?n ?h) = length (replicate (10 - ?n) (0::int))"
    using len by simp
  ultimately show ?thesis by (metis append_eq_append_conv)
qed

lemma window_full:
  assumes "10 \<le> length rs"
  shows "rotate (length rs mod 10) (rssiHistory (readings rs)) = drop (length rs - 10) rs"
  using readings_inv[of rs] assms by simp

lemma window_sum:
  "sum_list (take (min (length rs) 10) (rssiHistory (readings rs)))
     = sum_list (drop (length rs - 10) rs)"
proof (cases "length rs < 10")
  case True
  then show ?thesis using window_short[OF True] by simp
next
  case False
  then have ge: "10 \<le> length rs" by simp
  have len: "length (rssiHistory (readings rs)) = 10" using readings_inv[of rs] by simp
  have "sum_list (rssiHistory (readings rs))
          = sum_list (rotate (length rs mod 10) (rssiHistory (readings rs)))"
    by (simp only: sum_list_rotate)
  then show ?thesis using window_full[OF ge] ge len by simp
qed

lemma window_set:
  "set (take (min (length rs) 10) (rssiHistory (readings rs))) = set (drop (length rs - 10) rs)"
proof (cases "length rs < 10")
  case True
  then show ?thesis using window_short[OF True] by simp
next
  case False
  then have ge: "10 \<le> length rs" by simp
  have len: "length (rssiHistory (readings rs)) = 10" using readings_inv[of rs] by simp
  have "set (rssiHistory (readings rs))
          = set (rotate (length rs mod 10) (rssiHistory (readings rs)))"
    by (simp only: set_rotate)
  then show ?thesis using window_full[OF ge] ge len by simp
qed

lemma avgRSSI_readings:
  assumes "rs \<noteq> []" and bound: "\<forall>r \<in> set rs. - 214748364 \<le> r \<and> r \<le> 214748364"
  shows "avgRSSI (readings rs)
           = c_div (sum_list (drop (length rs - 10) rs)) (int (min (length rs) 10))"
proof -
  obtain rs' r where rs: "rs = rs' @ [r]" using assms by (cases rs rule: rev_cases) auto
  let ?s = "readings rs"
  have len: "length (rssiHistory ?s) = 10" and cnt: "rssiHistoryCount ?s = int (min (length rs) 10)"
    using readings_inv[of rs] by simp_all
  have "avgRSSI ?s = c_div (sum_loop (rssiHistory ?s) 0 (rssiHistoryCount ?s) 0) (rssiHistoryCount ?s)"
    unfolding rs readings_snoc by (rule takeReading_fields(5))
  also have "sum_loop (rssiHistory ?s) 0 (rssiHistoryCount ?s) 0
               = sum_list (take (min (length rs) 10) (rssiHistory ?s))"
  proof -
    have "set (take (min (length rs) 10) (rssiHistory ?s)) \<subseteq> set rs"
      unfolding window_set by (rule set_drop_subset)
    then have "\<forall>x \<in> set (take (nat (rssiHistoryCount ?s)) (rssiHistory ?s)).
                 - 214748364 \<le> x \<and> x \<le> 214748364"
      using bound cnt by auto
    then show ?thesis
      using sum_loop_take[of "rssiHistoryCount ?s" "rssiHistory ?s"] len cnt by simp
  qed
  finally show ?thesis using cnt by (simp add: window_sum)
qed

lemma c_div_bounds:
  assumes n: "0 < n" and lo: "lo * n \<le> a" and hi: "a \<le> hi * n"
  shows "lo \<le> c_div a n \<and> c_div a n \<le> hi"
proof (cases "0 \<le> a")
  case True
  have "(lo * n) div n \<le> a div n" using lo n by (intro zdiv_mono1) auto
  moreover have "a div n \<le> (hi * n) div n" using hi n by (intro zdiv_mono1) auto
  ultimately show ?thesis using True n by (simp add: c_div_def)
next
  case False
  then have neg: "a < 0" by simp
  have nz: "n \<noteq> 0" using n by simp
  have "- a \<le> (- lo) * n" using lo by simp
  then have "(- a) div n \<le> ((- lo) * n) div n" using n by (rule zdiv_mono1)
  also have "((- lo) * n) div n = - lo" using nz by (rule nonzero_mult_div_cancel_right)
  finally have 1: "(- a) div n \<le> - lo" .
  have "(- hi) * n \<le> - a" using hi by simp
  then have "((- hi) * n) div n \<le> (- a) div n" using n by (rule zdiv_mono1)
  moreover have "((- hi) * n) div n = - hi" using nz by (rule nonzero_mult_div_cancel_right)
  ultimately have 2: "- hi \<le> (- a) div n" by (simp only:)
  have "c_div a n = - ((- a) div n)" using neg n by (simp add: c_div_def)
  then show ?thesis using 1 2 by simp
qed

text \<open>
  Claim C7. After every update the history window (the entries of the buffer below the
  count) holds the last ten readings at most, the smoothed RSSI is the mean of this window
  truncated towards zero, and it lies between the least and the greatest entry of the window.
  The readings are taken within 214748364 of zero, as every RSSI in dBm is (the radio
  reports values from -128 to 127): then the 32-bit sum of the window cannot overflow.
\<close>

theorem smoothed_rssi_within_window:
  "rs \<noteq> [] \<Longrightarrow> \<forall>r \<in> set rs. - 214748364 \<le> r \<and> r \<le> 214748364 \<Longrightarrow>
     set (take (nat (rssiHistoryCount (readings rs))) (rssiHistory (readings rs)))
       = set (drop (length rs - 10) rs) \<and>
     avgRSSI (readings rs)
       = c_div (sum_list (drop (length rs - 10) rs)) (int (length (drop (length rs - 10) rs))) \<and>
     Min (set (drop (length rs - 10) rs)) \<le> avgRSSI (readings rs) \<and>
     avgRSSI (readings rs) \<le> Max (set (drop (length rs - 10) rs))"
proof -
  assume ne: "rs \<noteq> []"
    and bound: "\<forall>r \<in> set rs. - 214748364 \<le> r \<and> r \<le> 214748364"
  let ?w = "drop (length rs - 10) rs"
  have wlen: "length ?w = min (length rs) 10" by auto
  have "0 < length rs" using ne by simp
  then have "length rs - 10 < length rs" by arith
  then have wne: "?w \<noteq> []" by simp
  have cnt: "nat (rssiHistoryCount (readings rs)) = min (length rs) 10"
    using readings_inv[of rs] by simp
  have avg: "avgRSSI (readings rs) = c_div (sum_list ?w) (int (length ?w))"
    using avgRSSI_readings[OF ne bound] wlen by simp
  have "\<forall>x \<in> set ?w. Min (set ?w) \<le> x \<and> x \<le> Max (set ?w)" by simp
  then have b: "Min (set ?w) * int (length ?w) \<le> sum_list ?w"
               "sum_list ?w \<le> Max (set ?w) * int (length ?w)"
    using sum_list_bounds[of ?w "Min (set ?w)" "Max (set ?w)"] by blast+
  have pos: "0 < int (length ?w)" using wne by simp
  from c_div_bounds[OF pos b] avg cnt window_set[of rs] show ?thesis by simp
qed

text \<open>Twelve readings: the window is the last ten, its truncated mean is -65.\<close>

theorem smoothed_rssi_witness:
  "[- 50, - 90, - 61, - 62, - 63, - 64, - 65, - 66, - 67, - 68, - 69, - 71] \<noteq> ([] :: int list)
   \<and> - 214748364
       \<le> Min (set [- 50, - 90, - 61, - 62, - 63, - 64, - 65, - 66, - 67, - 68, - 69, - 71 :: int])
   \<and> Max (set [- 50, - 90, - 61, - 62, - 63, - 64, - 65, - 66, - 67, - 68, - 69, - 71 :: int])
       \<le> 214748364
   \<and> avgRSSI (readings [- 50, - 90, - 61, - 62, - 63, - 64, - 65, - 66, - 67, - 68, - 69, - 71])
       = - 65
   \<and> Min (set (drop 2 [- 50, - 90, - 61, - 62, - 63, - 64, - 65, - 66, - 67, - 68, - 69, - 71 :: int]))
       = - 71
   \<and> Max (set (drop 2 [- 50, - 90, - 61, - 62, - 63, - 64, - 65, - 66, - 67, - 68, - 69, - 71 :: int]))
       = - 61"
  using smoothed_rssi_within_window
    [of "[- 50, - 90, - 61, - 62, - 63, - 64, - 65, - 66, - 67, - 68, - 69, - 71]"]
  by (simp add: c_div_def)





lemma getSignalQuality_mono:
  "a \<le> b \<Longrightarrow> bucket_rank (getSignalQuality a) \<le> bucket_rank (getSignalQuality b)"
  by (simp add: getSignalQuality_def bucket_rank_def RSSI_EXCELLENT_def RSSI_GOOD_def
      RSSI_ACCEPTABLE_def RSSI_WEAK_def RSSI_CRITICAL_def)

lemma currentRSSI_readings: "rs \<noteq> [] \<Longrightarrow> currentRSSI (readings rs) = last rs"
  by (cases rs rule: rev_cases) (simp_all add: readings_snoc takeReading_fields)

text \<open>
  Claim C6, as the code has it. The quality bucket is a monotone function of the RSSI it is
  computed from, and in the published snapshot that is the raw current RSSI (the latest
  reading), not the smoothed one: of two snapshots, the one with the strictly higher raw RSSI
  never has the strictly worse bucket.
\<close>

theorem quality_bucket_monotone_in_raw_rssi:
  "(a < b \<longrightarrow> bucket_rank (getSignalQuality a) \<le> bucket_rank (getSignalQuality b))
   \<and> doc_signal_quality (telemetry_doc s now) = getSignalQuality (doc_rssi (telemetry_doc s now))
   \<and> (doc_rssi (telemetry_doc s1 t1) < doc_rssi (telemetry_doc s2 t2) \<longrightarrow>
        bucket_rank (doc_signal_quality (telemetry_doc s1 t1))
          \<le> bucket_rank (doc_signal_quality (telemetry_doc s2 t2)))
   \<and> (rs \<noteq> [] \<longrightarrow> doc_rssi (telemetry_doc (readings rs) now) = last rs)"
  using getSignalQuality_mono[of a b]
    getSignalQuality_mono[of "currentRSSI s1" "currentRSSI s2"] currentRSSI_readings[of rs]
  by (simp add: telemetry_doc_def)

text \<open>Two snapshots with raw RSSI -90 and -62.\<close>

theorem quality_bucket_witness:
  "(- 90 :: int) < - 62
   \<and> doc_rssi (telemetry_doc (readings [- 50, - 50, - 50, - 90]) 0) = - 90
   \<and> doc_rssi (telemetry_doc (readings [- 70, - 70, - 70, - 62]) 0) = - 62
   \<and> getSignalQuality (- 90) = ''CRITICA'' \<and> getSignalQuality (- 62) = ''BUENA''
   \<and> bucket_rank (doc_signal_quality (telemetry_doc (readings [- 50, - 50, - 50, - 90]) 0))
        \<le> bucket_rank (doc_signal_quality (telemetry_doc (readings [- 70, - 70, - 70, - 62]) 0))"
  using quality_bucket_monotone_in_raw_rssi
    [of "- 90" "- 62" "readings [- 50, - 50, - 50, - 90]" 0
        "readings [- 50, - 50, - 50, - 90]" 0 "readings [- 70, - 70, - 70, - 62]" 0
        "[- 50, - 50, - 50, - 90]"]
    quality_bucket_monotone_in_raw_rssi
    [of "- 90" "- 62" "readings [- 70, - 70, - 70, - 62]" 0
        "readings [- 50, - 50, - 50, - 90]" 0 "readings [- 70, - 70, - 70, - 62]" 0
        "[- 70, - 70, - 70, - 62]"]
  by (simp add: getSignalQuality_def RSSI_EXCELLENT_def RSSI_GOOD_def
      RSSI_ACCEPTABLE_def RSSI_WEAK_def RSSI_CRITICAL_def)

text \<open>
  Against claim C6 as stated (monotone in the smoothed RSSI): after the readings
  -50, -50, -50, -90 the smoothed RSSI is -60 and the bucket CRITICA; after
  -70, -70, -70, -62 the smoothed RSSI is -68 and the bucket BUENA.
\<close>

theorem quality_bucket_smoothed_counterexample:
  "doc_avg_rssi (telemetry_doc (readings [- 50, - 50, - 50, - 90]) 0)
     > doc_avg_rssi (telemetry_doc (readings [- 70, - 70, - 70, - 62]) 0)
   \<and> bucket_rank (doc_signal_quality (telemetry_doc (readings [- 50, - 50, - 50, - 90]) 0))
     < bucket_rank (doc_signal_quality (telemetry_doc (readings [- 70, - 70, - 70, - 62]) 0))"
  by code_simp






section \<open>Link connection manager: results\<close>

lemma cleanupConnection_fields:
  "pClient (cleanupConnection s cb) = None"
  "pRemoteChar (cleanupConnection s cb) = None"
  "pWriteChar (cleanupConnection s cb) = None"
  "\<not> deviceConnected (cleanupConnection s cb)"
  "\<not> isConnecting (cleanupConnection s cb)"
  "shouldConnect (cleanupConnection s cb) = shouldConnect s"
  by (simp_all add: cleanupConnection_def onDisconnect_def Let_def split: option.splits)

lemma cleanupConnection_torn_down:
  assumes "pClient s = None" "pRemoteChar s = None" "pWriteChar s = None"
    "\<not> deviceConnected s" "\<not> isConnecting s"
  shows "cleanupConnection s cb = s"
  using assms by (simp add: cleanupConnection_def)

lemma cleanupConnection_twice:
  "cleanupConnection (cleanupConnection s cb1) cb2 = cleanupConnection s cb1"
  by (rule cleanupConnection_torn_down) (simp_all add: cleanupConnection_fields)

lemma onDisconnect_after_cleanup:
  "onDisconnect (cleanupConnection s cb) = cleanupConnection s cb"
proof -
  have "onDisconnect t = t" if "\<not> deviceConnected t" "\<not> isConnecting t" for t
    using that by (simp add: onDisconnect_def)
  then show ?thesis by (simp add: cleanupConnection_fields)
qed

text \<open>
  Claim C9. Teardown is idempotent: a second teardown right after a first one changes
  nothing, whatever the reasons given and whether or not the stack ran its disconnect
  callback; after one teardown the connected and connecting flags are cleared, the client is
  deleted, both characteristic handles are released and no radio resource is held; a
  disconnect callback that arrives late changes nothing either.
\<close>

theorem teardown_idempotent:
  "cleanupConnection (cleanupConnection s cb1) cb2 = cleanupConnection s cb1
   \<and> forceDisconnect (forceDisconnect s r1 cb1) r2 cb2 = forceDisconnect s r1 cb1
   \<and> forceDisconnect s r1 cb1 = cleanupConnection s cb1
   \<and> \<not> deviceConnected (cleanupConnection s cb1)
   \<and> \<not> isConnecting (cleanupConnection s cb1)
   \<and> pClient (cleanupConnection s cb1) = None
   \<and> pRemoteChar (cleanupConnection s cb1) = None
   \<and> pWriteChar (cleanupConnection s cb1) = None
   \<and> resource_count (cleanupConnection s cb1) = 0
   \<and> resource_count (cleanupConnection (cleanupConnection s cb1) cb2) = 0
   \<and> onDisconnect (cleanupConnection s cb1) = cleanupConnection s cb1"
  by (simp add: forceDisconnect_def cleanupConnection_twice cleanupConnection_fields
      resource_count_def onDisconnect_after_cleanup)

lemma streaming_facts:
  "deviceConnected streaming" "pClient streaming = Some \<lparr> isConnected = True \<rparr>"
  "pRemoteChar streaming = Some ()" "pWriteChar streaming = Some ()"
  "pendingHR streaming = 73" "pendingSpo2 streaming = 97" "lastStatusCheck streaming = 0"
  "shouldConnect streaming" "reconnections streaming = 0"
  by (simp_all add: streaming_def notifyCallback_cases example_frame_def hr_candidates_def
      spo2_candidates_def connectToDevice_def found_def initial_def candidate_def radio_ok_def
      RSSI_MIN_CONNECT_def cleanupConnection_def onConnect_def CONNECTION_TIMEOUT_def
      updateRSSIHistory_def Let_def)

text \<open>From the streaming bridge, torn down for a data timeout and then for a handoff.\<close>

theorem teardown_witness:
  "resource_count streaming = 3 \<and> deviceConnected streaming
   \<and> resource_count (forceDisconnect streaming ''Timeout sin datos'' True) = 0
   \<and> reconnections (forceDisconnect streaming ''Timeout sin datos'' True) = 1
   \<and> forceDisconnect (forceDisconnect streaming ''Timeout sin datos'' True)
         ''Handoff solicitado por proxy'' True
       = forceDisconnect streaming ''Timeout sin datos'' True"
  using teardown_idempotent
    [of streaming True True "''Timeout sin datos''" "''Handoff solicitado por proxy''"]
  by (simp add: resource_count_def streaming_facts forceDisconnect_def cleanupConnection_def
      onDisconnect_def)

lemma checkProxyStatus_disallow:
  assumes "wifi_connected h" "\<not> clock h - lastStatusCheck s < STATUS_CHECK_INTERVAL"
    "httpCode h = 200" "response h = Some d" "should_connect d = Some False"
  shows "\<not> shouldConnect (checkProxyStatus s h)"
  using assms
  by (simp add: checkProxyStatus_def Let_def or_default_def forceDisconnect_def
      cleanupConnection_fields)

text \<open>
  Claim C3. When the candidate's RSSI is below the minimum for connecting, or when the
  latest directive disallows connecting, \<open>connectToDevice\<close> returns false and leaves the
  whole state as it was: the connecting flag is not set, no attempt is counted and no client
  is created. In particular this is so right after a status answer with
  \<open>should_connect\<close> false.
\<close>

theorem connect_refused_when_weak_or_disallowed:
  "(foundDevice s = Some dev \<and> getRSSI dev < RSSI_MIN_CONNECT \<longrightarrow>
      connectToDevice s e = (False, s))
   \<and> (\<not> shouldConnect s \<longrightarrow> connectToDevice s e = (False, s))
   \<and> (wifi_connected h \<and> \<not> clock h - lastStatusCheck s < STATUS_CHECK_INTERVAL
        \<and> httpCode h = 200 \<and> response h = Some d \<and> should_connect d = Some False \<longrightarrow>
      connectToDevice (checkProxyStatus s h) e = (False, checkProxyStatus s h))"
proof (intro conjI impI)
  assume "foundDevice s = Some dev \<and> getRSSI dev < RSSI_MIN_CONNECT"
  then show "connectToDevice s e = (False, s)"
    by (simp add: connectToDevice_def)
next
  assume "\<not> shouldConnect s"
  then show "connectToDevice s e = (False, s)"
    by (simp add: connectToDevice_def Let_def split: option.splits)
next
  assume a: "wifi_connected h \<and> \<not> clock h - lastStatusCheck s < STATUS_CHECK_INTERVAL
        \<and> httpCode h = 200 \<and> response h = Some d \<and> should_connect d = Some False"
  then have "\<not> shouldConnect (checkProxyStatus s h)"
    using checkProxyStatus_disallow[of h s d] by simp
  then show "connectToDevice (checkProxyStatus s h) e = (False, checkProxyStatus s h)"
    by (simp add: connectToDevice_def Let_def split: option.splits)
qed

text \<open>
  A candidate at -93 dBm; a candidate at -60 dBm with connecting disallowed; for contrast a
  candidate at -92 dBm, to which the bridge does connect.
\<close>

theorem connect_refused_witness:
  "foundDevice (found (- 93)) = Some (candidate (- 93))
   \<and> getRSSI (candidate (- 93)) < RSSI_MIN_CONNECT
   \<and> connectToDevice (found (- 93)) radio_ok = (False, found (- 93))
   \<and> \<not> shouldConnect ((found (- 60))\<lparr> shouldConnect := False \<rparr>)
   \<and> connectToDevice ((found (- 60))\<lparr> shouldConnect := False \<rparr>) radio_ok
       = (False, (found (- 60))\<lparr> shouldConnect := False \<rparr>)
   \<and> should_connect (the (response (answer (Some False) None))) = Some False
   \<and> fst (connectToDevice (checkProxyStatus (found (- 60)) (answer (Some False) None)) radio_ok)
       = False
   \<and> connectionAttempts
        (snd (connectToDevice (checkProxyStatus (found (- 60)) (answer (Some False) None)) radio_ok))
       = 0
   \<and> fst (connectToDevice (found (- 92)) radio_ok) = True
   \<and> connectionAttempts (snd (connectToDevice (found (- 92)) radio_ok)) = 1"
proof -
  have pos: "fst (connectToDevice (found (- 92)) radio_ok) = True"
    "connectionAttempts (snd (connectToDevice (found (- 92)) radio_ok)) = 1"
    by (simp_all add: connectToDevice_def found_def initial_def candidate_def radio_ok_def
        RSSI_MIN_CONNECT_def cleanupConnection_def onConnect_def CONNECTION_TIMEOUT_def
        updateRSSIHistory_def Let_def)
  have pre: "wifi_connected (answer (Some False) None)
     \<and> \<not> clock (answer (Some False) None) - lastStatusCheck (found (- 60)) < STATUS_CHECK_INTERVAL
     \<and> httpCode (answer (Some False) None) = 200
     \<and> response (answer (Some False) None)
         = Some \<lparr> is_active_bridge = Some False, should_connect = Some False,
                  release_connection = None \<rparr>
     \<and> should_connect \<lparr> is_active_bridge = Some False, should_connect = Some False,
                  release_connection = None \<rparr> = Some False"
    by (simp add: answer_def found_def initial_def STATUS_CHECK_INTERVAL_def)
  have att: "connectionAttempts (checkProxyStatus (found (- 60)) (answer (Some False) None)) = 0"
    by (simp add: checkProxyStatus_def answer_def found_def initial_def
        STATUS_CHECK_INTERVAL_def or_default_def Let_def)
  show ?thesis
    using connect_refused_when_weak_or_disallowed
      [of "found (- 93)" "candidate (- 93)" radio_ok "answer (Some False) None"
          "\<lparr> is_active_bridge = Some False, should_connect = Some False,
             release_connection = None \<rparr>"]
      connect_refused_when_weak_or_disallowed
      [of "(found (- 60))\<lparr> shouldConnect := False \<rparr>" "candidate (- 60)" radio_ok
          "answer (Some False) None"
          "\<lparr> is_active_bridge = Some False, should_connect = Some False,
             release_connection = None \<rparr>"]
      connect_refused_when_weak_or_disallowed
      [of "found (- 60)" "candidate (- 60)" radio_ok "answer (Some False) None"
          "\<lparr> is_active_bridge = Some False, should_connect = Some False,
             release_connection = None \<rparr>"]
      pos pre att
    by (simp add: found_def candidate_def RSSI_MIN_CONNECT_def answer_def)
qed

section \<open>Arbitration: results\<close>

lemma sendDataToProxy_release:
  assumes "wifi_connected e" "0 \<le> pendingSpo2 s" "0 \<le> pendingHR s" "httpCode e = 200"
    "response e = Some d" "release_connection d = Some True" "deviceConnected s"
  shows "sendDataToProxy s e =
           (True, (cleanupConnection
              (s\<lparr> isActiveBridge := or_default (is_active_bridge d) False,
                   shouldConnect := or_default (should_connect d) True \<rparr>) (cb_disconnect e))
              \<lparr> packetsSent := packetsSent s + 1, pendingSpo2 := - 1, pendingHR := - 1 \<rparr>)"
proof -
  have ps: "packetsSent (cleanupConnection x cb) = packetsSent x" for x cb
    by (simp add: cleanupConnection_def onDisconnect_def Let_def split: option.splits)
  show ?thesis
    using assms by (simp add: sendDataToProxy_def Let_def forceDisconnect_def ps)
qed

lemma checkProxyStatus_handoff:
  assumes "wifi_connected e" "\<not> clock e - lastStatusCheck s < STATUS_CHECK_INTERVAL"
    "httpCode e = 200" "response e = Some d" "should_connect d = Some False" "deviceConnected s"
  shows "checkProxyStatus s e =
           cleanupConnection
             (s\<lparr> lastStatusCheck := clock_mark e, shouldConnect := False,
                  isActiveBridge := or_default (is_active_bridge d) False \<rparr>) (cb_disconnect e)"
  using assms
  by (simp add: checkProxyStatus_def Let_def forceDisconnect_def or_default_def)

text \<open>
  Claim C4, as the code has it. When the answer to a telemetry POST (status 200, body
  parsed) carries \<open>release_connection\<close> true while the bridge is connected, the link is torn
  down inside that call of \<open>sendDataToProxy\<close>, so within the polling cycle of the exchange:
  the connected flag is cleared, the client deleted and the handles released. The status
  poll does not read \<open>release_connection\<close>; it tears the link down in the same way when its
  answer has \<open>should_connect\<close> false while the bridge is connected.
\<close>

theorem release_directive_tears_down:
  "(wifi_connected e \<and> 0 \<le> pendingSpo2 s \<and> 0 \<le> pendingHR s \<and> httpCode e = 200
      \<and> response e = Some d \<and> release_connection d = Some True \<and> deviceConnected s \<longrightarrow>
      fst (sendDataToProxy s e)
      \<and> \<not> deviceConnected (snd (sendDataToProxy s e))
      \<and> \<not> isConnecting (snd (sendDataToProxy s e))
      \<and> pClient (snd (sendDataToProxy s e)) = None
      \<and> pRemoteChar (snd (sendDataToProxy s e)) = None
      \<and> pWriteChar (snd (sendDataToProxy s e)) = None
      \<and> resource_count (snd (sendDataToProxy s e)) = 0)
   \<and> (wifi_connected e \<and> \<not> clock e - lastStatusCheck s < STATUS_CHECK_INTERVAL
      \<and> httpCode e = 200 \<and> response e = Some d \<and> should_connect d = Some False
      \<and> deviceConnected s \<longrightarrow>
      \<not> deviceConnected (checkProxyStatus s e)
      \<and> \<not> isConnecting (checkProxyStatus s e)
      \<and> pClient (checkProxyStatus s e) = None
      \<and> pRemoteChar (checkProxyStatus s e) = None
      \<and> pWriteChar (checkProxyStatus s e) = None
      \<and> resource_count (checkProxyStatus s e) = 0)"
proof (intro conjI impI)
  assume a: "wifi_connected e \<and> 0 \<le> pendingSpo2 s \<and> 0 \<le> pendingHR s \<and> httpCode e = 200
      \<and> response e = Some d \<and> release_connection d = Some True \<and> deviceConnected s"
  then have eq: "sendDataToProxy s e =
           (True, (cleanupConnection
              (s\<lparr> isActiveBridge := or_default (is_active_bridge d) False,
                   shouldConnect := or_default (should_connect d) True \<rparr>) (cb_disconnect e))
              \<lparr> packetsSent := packetsSent s + 1, pendingSpo2 := - 1, pendingHR := - 1 \<rparr>)"
    using sendDataToProxy_release[of e s d] by simp
  show "fst (sendDataToProxy s e)"
    "\<not> deviceConnected (snd (sendDataToProxy s e))"
    "\<not> isConnecting (snd (sendDataToProxy s e))"
    "pClient (snd (sendDataToProxy s e)) = None"
    "pRemoteChar (snd (sendDataToProxy s e)) = None"
    "pWriteChar (snd (sendDataToProxy s e)) = None"
    "resource_count (snd (sendDataToProxy s e)) = 0"
    by (simp_all add: eq cleanupConnection_fields resource_count_def)
next
  assume a: "wifi_connected e \<and> \<not> clock e - lastStatusCheck s < STATUS_CHECK_INTERVAL
      \<and> httpCode e = 200 \<and> response e = Some d \<and> should_connect d = Some False
      \<and> deviceConnected s"
  then have eq: "checkProxyStatus s e =
           cleanupConnection
             (s\<lparr> lastStatusCheck := clock_mark e, shouldConnect := False,
                  isActiveBridge := or_default (is_active_bridge d) False \<rparr>) (cb_disconnect e)"
    using checkProxyStatus_handoff[of e s d] by simp
  show "\<not> deviceConnected (checkProxyStatus s e)"
    "\<not> isConnecting (checkProxyStatus s e)"
    "pClient (checkProxyStatus s e) = None"
    "pRemoteChar (checkProxyStatus s e) = None"
    "pWriteChar (checkProxyStatus s e) = None"
    "resource_count (checkProxyStatus s e) = 0"
    by (simp_all add: eq cleanupConnection_fields resource_count_def)
qed

text \<open>
  Against claim C4 as stated (any exchange): a status poll that is carried out and answered
  with \<open>release_connection\<close> true and \<open>should_connect\<close> true leaves the streaming bridge
  connected, its client and handles in place.
\<close>

theorem release_directive_status_poll_counterexample:
  "deviceConnected streaming
   \<and> release_connection (the (response (answer (Some True) (Some True)))) = Some True
   \<and> lastStatusCheck (checkProxyStatus streaming (answer (Some True) (Some True))) = 5001
   \<and> deviceConnected (checkProxyStatus streaming (answer (Some True) (Some True)))
   \<and> pClient (checkProxyStatus streaming (answer (Some True) (Some True)))
       = Some \<lparr> isConnected = True \<rparr>
   \<and> resource_count (checkProxyStatus streaming (answer (Some True) (Some True))) = 3"
  by (simp add: checkProxyStatus_def answer_def streaming_facts STATUS_CHECK_INTERVAL_def
      or_default_def Let_def resource_count_def)

text \<open>The streaming bridge, released by a POST answer and by a status answer.\<close>

theorem release_directive_witness:
  "deviceConnected streaming \<and> 0 \<le> pendingSpo2 streaming \<and> 0 \<le> pendingHR streaming
   \<and> release_connection (the (response (answer None (Some True)))) = Some True
   \<and> fst (sendDataToProxy streaming (answer None (Some True)))
   \<and> \<not> deviceConnected (snd (sendDataToProxy streaming (answer None (Some True))))
   \<and> resource_count (snd (sendDataToProxy streaming (answer None (Some True)))) = 0
   \<and> should_connect (the (response (answer (Some False) None))) = Some False
   \<and> \<not> deviceConnected (checkProxyStatus streaming (answer (Some False) None))
   \<and> resource_count (checkProxyStatus streaming (answer (Some False) None)) = 0"
  using release_directive_tears_down
      [of "answer None (Some True)" streaming
          "\<lparr> is_active_bridge = Some False, should_connect = None,
             release_connection = Some True \<rparr>"]
    release_directive_tears_down
      [of "answer (Some False) None" streaming
          "\<lparr> is_active_bridge = Some False, should_connect = Some False,
             release_connection = None \<rparr>"]
  by (simp add: answer_def streaming_facts STATUS_CHECK_INTERVAL_def)

end
